theory Spec2Isabelle
  imports Main
begin

section \<open>Python values used by the hotel engine\<close>

text \<open>
  The engine of \<^verbatim>\<open>bookRoom.py\<close> works on Python integers (room numbers, counts, travel
  times), lists of them, one dictionary from room number to a boolean, and the float
  \<^verbatim>\<open>float('inf')\<close> that the two searches use as their initial minimum. Python integers
  are unbounded, so they are \<^typ>\<open>int\<close>. An exception is a value of \<open>py_error\<close>.
\<close>

datatype py_error = IndexError | ValueError

text \<open>A travel time as the searches hold it: an integer, or \<^verbatim>\<open>float('inf')\<close>.\<close>

datatype time = Finite int | Infinity

text \<open>\<^verbatim>\<open>time < min_time\<close>, for an integer on the left: every integer is below infinity.\<close>

fun less_time :: "int \<Rightarrow> time \<Rightarrow> bool" where
  "less_time t Infinity = True"
| "less_time t (Finite m) = (t < m)"

text \<open>
  \<^verbatim>\<open>xs[i]\<close>: a negative index counts from the end, and an index outside the list raises
  IndexError.
\<close>

definition getitem :: "'a list \<Rightarrow> int \<Rightarrow> py_error + 'a" where
  "getitem xs i =
     (if 0 \<le> i \<and> i < int (length xs) then Inr (xs ! nat i)
      else if i < 0 \<and> - int (length xs) \<le> i then Inr (xs ! nat (int (length xs) + i))
      else Inl IndexError)"

text \<open>
  \<^verbatim>\<open>xs[i:j]\<close>: each bound is counted from the end when negative, then clipped to the
  list; the slice is empty when the bounds cross. A slice never raises.
\<close>

definition slice_bound :: "nat \<Rightarrow> int \<Rightarrow> nat" where
  "slice_bound len k = (if k < 0 then nat (max 0 (int len + k)) else min (nat k) len)"

definition py_slice :: "'a list \<Rightarrow> int \<Rightarrow> int \<Rightarrow> 'a list" where
  "py_slice xs i j =
     (let lo = slice_bound (length xs) i; hi = slice_bound (length xs) j
      in take (hi - lo) (drop lo xs))"

text \<open>\<^verbatim>\<open>range(a, b)\<close> and \<^verbatim>\<open>range(n)\<close>, as the lists a \<^verbatim>\<open>for\<close> loop runs over.\<close>

definition py_range2 :: "int \<Rightarrow> int \<Rightarrow> int list" where
  "py_range2 a b = [a .. b - 1]"

definition py_range :: "int \<Rightarrow> int list" where
  "py_range n = py_range2 0 n"

text \<open>\<^verbatim>\<open>d.get(k, default)\<close> on a dictionary.\<close>

definition dict_get :: "('k \<rightharpoonup> 'v) \<Rightarrow> 'k \<Rightarrow> 'v \<Rightarrow> 'v" where
  "dict_get d k dflt = (case d k of None \<Rightarrow> dflt | Some v \<Rightarrow> v)"

text \<open>
  A \<^verbatim>\<open>for\<close> loop whose body updates the loop's variables and may raise: the exception
  leaves the loop at once.
\<close>

fun for_loop :: "'a list \<Rightarrow> ('a \<Rightarrow> 's \<Rightarrow> py_error + 's) \<Rightarrow> 's \<Rightarrow> py_error + 's" where
  "for_loop [] body s = Inr s"
| "for_loop (x # xs) body s =
     (case body x s of Inl e \<Rightarrow> Inl e | Inr s' \<Rightarrow> for_loop xs body s')"

section \<open>The hotel\<close>

datatype BookingType = SINGLE_FLOOR | MULTI_FLOOR

text \<open>
  \<^verbatim>\<open>Hotel.__init__\<close> sets \<^verbatim>\<open>floors\<close> and \<^verbatim>\<open>rooms_per_floor\<close> once and no method assigns
  them again, so they are constants here. The only mutable attribute is the dictionary
  \<^verbatim>\<open>available_rooms\<close> from room number to "is free".
\<close>

definition floors :: int where
  "floors = 10"

definition rooms_per_floor :: "int list" where
  "rooms_per_floor = replicate 9 10 @ [7]"

record Hotel =
  available_rooms :: "int \<rightharpoonup> bool"

text \<open>
  \<^verbatim>\<open>_initialize_rooms\<close>: two nested loops over the floors and the rooms of each floor. The
  index \<^verbatim>\<open>floor - 1\<close> runs over 0..9 of a list of length 10, so the read never raises.
\<close>

definition initialize_rooms :: "int \<rightharpoonup> bool" where
  "initialize_rooms =
     fold (\<lambda>floor available.
             let rooms_count = rooms_per_floor ! nat (floor - 1)
             in fold (\<lambda>room available. available(floor * 100 + room \<mapsto> True))
                  (py_range2 1 (rooms_count + 1)) available)
          (py_range2 1 (floors + 1)) Map.empty"

definition Hotel_init :: Hotel where
  "Hotel_init = \<lparr>available_rooms = initialize_rooms\<rparr>"

text \<open>\<^verbatim>\<open>_travel_time\<close>; Python's \<^verbatim>\<open>divmod\<close> rounds towards minus infinity, as HOL's does.\<close>

definition divmod :: "int \<Rightarrow> int \<Rightarrow> int \<times> int" where
  "divmod a b = (a div b, a mod b)"

definition travel_time :: "int \<Rightarrow> int \<Rightarrow> int" where
  "travel_time room1 room2 =
     (let (floor1, room_num1) = divmod room1 100;
          (floor2, room_num2) = divmod room2 100;
          vertical_time = \<bar>floor1 - floor2\<bar> * 2;
          horizontal_time = \<bar>room_num1 - room_num2\<bar>
      in vertical_time + horizontal_time)"

text \<open>
  \<^verbatim>\<open>_get_available_rooms_on_floor\<close>: the free rooms of a floor in ascending room order.
  \<^verbatim>\<open>rooms_per_floor[floor - 1]\<close> raises IndexError for a floor outside the list.
\<close>

definition get_available_rooms_on_floor :: "Hotel \<Rightarrow> int \<Rightarrow> py_error + int list" where
  "get_available_rooms_on_floor self floor =
     (case getitem rooms_per_floor (floor - 1) of
        Inl e \<Rightarrow> Inl e
      | Inr rooms_count \<Rightarrow>
          Inr (fold (\<lambda>room floor_rooms.
                       let room_number = floor * 100 + room
                       in if dict_get (available_rooms self) room_number False
                          then floor_rooms @ [room_number] else floor_rooms)
                    (py_range2 1 (rooms_count + 1)) []))"

text \<open>
  The body of the window loop, which the two searches share word for word (lines 61--66
  and 89--94): slice the window, score its two ends, keep it when it is strictly better.
  \<^verbatim>\<open>rooms[0]\<close> and \<^verbatim>\<open>rooms[-1]\<close> raise IndexError on an empty window.
\<close>

definition window_step ::
  "int list \<Rightarrow> int \<Rightarrow> int \<Rightarrow> int list \<times> time \<Rightarrow> py_error + int list \<times> time" where
  "window_step available num_rooms i s =
     (let rooms = py_slice available i (i + num_rooms) in
      case getitem rooms 0 of
        Inl e \<Rightarrow> Inl e
      | Inr room_a \<Rightarrow>
          (case getitem rooms (- 1) of
             Inl e \<Rightarrow> Inl e
           | Inr room_b \<Rightarrow>
               let t = travel_time room_a room_b
               in Inr (if less_time t (snd s) then (rooms, Finite t) else s)))"

text \<open>\<^verbatim>\<open>_find_best_rooms_single_floor\<close>; the loop state is \<open>(best_rooms, min_time)\<close>.\<close>

definition find_best_rooms_single_floor :: "Hotel \<Rightarrow> int \<Rightarrow> py_error + int list \<times> time" where
  "find_best_rooms_single_floor self num_rooms =
     for_loop (py_range2 1 (floors + 1))
       (\<lambda>floor s.
          case get_available_rooms_on_floor self floor of
            Inl e \<Rightarrow> Inl e
          | Inr available \<Rightarrow>
              if int (length available) \<ge> num_rooms
              then for_loop (py_range (int (length available) - num_rooms + 1))
                     (window_step available num_rooms) s
              else Inr s)
       ([], Infinity)"

text \<open>\<^verbatim>\<open>_find_best_rooms_multi_floor\<close>.\<close>

definition find_best_rooms_multi_floor :: "Hotel \<Rightarrow> int \<Rightarrow> py_error + int list \<times> time" where
  "find_best_rooms_multi_floor self num_rooms =
     (case for_loop (py_range2 1 (floors + 1))
             (\<lambda>floor all_available.
                case get_available_rooms_on_floor self floor of
                  Inl e \<Rightarrow> Inl e
                | Inr floor_rooms \<Rightarrow> Inr (all_available @ floor_rooms))
             [] of
        Inl e \<Rightarrow> Inl e
      | Inr all_available \<Rightarrow>
          if int (length all_available) < num_rooms then Inr ([], Infinity)
          else
            let all_available = sort all_available
            in for_loop (py_range (int (length all_available) - num_rooms + 1))
                 (window_step all_available num_rooms) ([], Infinity))"

text \<open>
  What the public methods return: a dictionary with the key \<^verbatim>\<open>error\<close> and one of five
  messages (two of them name a room), a booking, or a success acknowledgment.
\<close>

datatype error_message =
    MaximumRoomsPerBooking    \<comment> \<open>\<^verbatim>\<open>Maximum 5 rooms per booking allowed.\<close>\<close>
  | InvalidNumberOfRooms      \<comment> \<open>\<^verbatim>\<open>Invalid number of rooms requested.\<close>\<close>
  | NotEnoughRooms            \<comment> \<open>\<^verbatim>\<open>Not enough rooms available for booking.\<close>\<close>
  | RoomNotAvailable int      \<comment> \<open>\<^verbatim>\<open>Room {room} is not available.\<close>\<close>
  | RoomNotValid int          \<comment> \<open>\<^verbatim>\<open>Room {room} is not a valid room.\<close>\<close>

datatype success_message =
    CanceledBooking "int list"  \<comment> \<open>\<^verbatim>\<open>Successfully canceled booking for rooms: {rooms}\<close>\<close>
  | RandomOccupancy             \<comment> \<open>\<^verbatim>\<open>Random occupancy generated\<close>\<close>
  | HotelReset                  \<comment> \<open>\<^verbatim>\<open>Hotel reset successfully\<close>\<close>

datatype response =
    Error error_message
  | Booked (booked_rooms: "int list") (booked_travel_time: time) (booking_type: BookingType)
  | Success success_message

text \<open>\<^verbatim>\<open>for room in rooms: self.available_rooms[room] = v\<close>.\<close>

definition set_rooms :: "bool \<Rightarrow> int list \<Rightarrow> Hotel \<Rightarrow> Hotel" where
  "set_rooms v rooms self =
     fold (\<lambda>room h. h\<lparr>available_rooms := (available_rooms h)(room \<mapsto> v)\<rparr>) rooms self"

text \<open>
  \<^verbatim>\<open>book_rooms\<close>. The result is the returned dictionary and the hotel after the call; an
  exception of a search would leave before any room is marked.
\<close>

definition book_rooms :: "Hotel \<Rightarrow> int \<Rightarrow> py_error + response \<times> Hotel" where
  "book_rooms self num_rooms =
     (if num_rooms > 5 then Inr (Error MaximumRoomsPerBooking, self)
      else if num_rooms \<le> 0 then Inr (Error InvalidNumberOfRooms, self)
      else
        case find_best_rooms_single_floor self num_rooms of
          Inl e \<Rightarrow> Inl e
        | Inr (best_single_floor, time_single) \<Rightarrow>
            if best_single_floor = [] then
              (case find_best_rooms_multi_floor self num_rooms of
                 Inl e \<Rightarrow> Inl e
               | Inr (best_multi_floor, time_multi) \<Rightarrow>
                   if best_multi_floor = [] then Inr (Error NotEnoughRooms, self)
                   else Inr (Booked best_multi_floor time_multi MULTI_FLOOR,
                             set_rooms False best_multi_floor self))
            else Inr (Booked best_single_floor time_single SINGLE_FLOOR,
                      set_rooms False best_single_floor self))"

text \<open>
  \<^verbatim>\<open>book_specific_rooms\<close>. The first loop returns at the first room that is not a key or
  is not free; \<^verbatim>\<open>or\<close> does not read the dictionary for a room that is not a key.
\<close>

fun first_unavailable :: "Hotel \<Rightarrow> int list \<Rightarrow> int option" where
  "first_unavailable self [] = None"
| "first_unavailable self (room # rooms) =
     (case available_rooms self room of
        None \<Rightarrow> Some room
      | Some free \<Rightarrow> if \<not> free then Some room else first_unavailable self rooms)"

definition book_specific_rooms :: "Hotel \<Rightarrow> int list \<Rightarrow> response \<times> Hotel" where
  "book_specific_rooms self rooms =
     (case first_unavailable self rooms of
        Some room \<Rightarrow> (Error (RoomNotAvailable room), self)
      | None \<Rightarrow>
          let travel_time =
                (if length rooms > 1
                 then let sorted_rooms = sort rooms
                      in travel_time (hd sorted_rooms) (last sorted_rooms)
                 else 0);
              self' = set_rooms False rooms self;
              floors = set (map (\<lambda>room. room div 100) rooms);
              booking_type = (if card floors = 1 then SINGLE_FLOOR else MULTI_FLOOR)
          in (Booked rooms (Finite travel_time) booking_type, self'))"

text \<open>
  \<^verbatim>\<open>cancel_booking\<close>: one loop that frees each room as it goes and returns at the first
  room that is not a key; the rooms freed before it stay freed.
\<close>

fun cancel_loop :: "int list \<Rightarrow> Hotel \<Rightarrow> int option \<times> Hotel" where
  "cancel_loop [] self = (None, self)"
| "cancel_loop (room # rooms) self =
     (if room \<in> dom (available_rooms self)
      then cancel_loop rooms (self\<lparr>available_rooms := (available_rooms self)(room \<mapsto> True)\<rparr>)
      else (Some room, self))"

definition cancel_booking :: "Hotel \<Rightarrow> int list \<Rightarrow> response \<times> Hotel" where
  "cancel_booking self rooms =
     (case cancel_loop rooms self of
        (Some room, self') \<Rightarrow> (Error (RoomNotValid room), self')
      | (None, self') \<Rightarrow> (Success (CanceledBooking rooms), self'))"

definition get_available_rooms :: "Hotel \<Rightarrow> (int \<rightharpoonup> bool)" where
  "get_available_rooms self = available_rooms self"

text \<open>
  \<^verbatim>\<open>generate_random_occupancy\<close> assigns every key one draw of
  \<^verbatim>\<open>random.choice([True, False])\<close>. The draws are a parameter: \<open>choice room\<close> is the
  value drawn when the loop visits \<open>room\<close>.
\<close>

definition generate_random_occupancy :: "(int \<Rightarrow> bool) \<Rightarrow> Hotel \<Rightarrow> response \<times> Hotel" where
  "generate_random_occupancy choice self =
     (Success RandomOccupancy,
      self\<lparr>available_rooms :=
             (\<lambda>room. case available_rooms self room of
                        None \<Rightarrow> None
                      | Some free \<Rightarrow> Some (choice room))\<rparr>)"

definition reset :: "Hotel \<Rightarrow> response \<times> Hotel" where
  "reset self = (Success HotelReset, self\<lparr>available_rooms := initialize_rooms\<rparr>)"

text \<open>
  \<^verbatim>\<open>RoomSelectionRequest.validate_room_count\<close> of \<^verbatim>\<open>bookingRouter.py\<close>, the only check
  between a request and \<^verbatim>\<open>book_specific_rooms\<close>.
\<close>

definition validate_room_count :: "int list \<Rightarrow> py_error + int list" where
  "validate_room_count v =
     (if length v < 1 \<or> length v > 5 then Inl ValueError else Inr v)"

section \<open>The search, in the words of its description\<close>

text \<open>
  The definitions of this section are not translations of a method. They name what the
  statements about the two searches speak of: the free rooms of a floor as
  \<open>get_available_rooms_on_floor\<close> returns them, the contiguous windows of a list, the cost of
  a window (the travel time between its two ends), and what it is for a window to be the
  first one of minimal cost.
\<close>

definition free_rooms :: "Hotel \<Rightarrow> int \<Rightarrow> int list" where
  "free_rooms h f = (case get_available_rooms_on_floor h f of Inl e \<Rightarrow> [] | Inr rooms \<Rightarrow> rooms)"

text \<open>The windows of length \<open>n\<close> of a list, by ascending start.\<close>

definition windows :: "'a list \<Rightarrow> nat \<Rightarrow> 'a list list" where
  "windows xs n =
     (if n \<le> length xs then map (\<lambda>i. take n (drop i xs)) [0 ..< length xs - n + 1] else [])"

definition cost :: "int list \<Rightarrow> int" where
  "cost w = travel_time (hd w) (last w)"

text \<open>Every window of every floor: floors ascending, then window starts ascending.\<close>

definition single_floor_windows :: "Hotel \<Rightarrow> nat \<Rightarrow> int list list" where
  "single_floor_windows h n = concat (map (\<lambda>f. windows (free_rooms h f) n) [1 .. floors])"

text \<open>The sorted list of all free rooms, whose windows the multi-floor search scores.\<close>

definition all_free_rooms :: "Hotel \<Rightarrow> int list" where
  "all_free_rooms h = sort (concat (map (free_rooms h) [1 .. floors]))"

text \<open>One round of either window loop, on the window itself.\<close>

definition keep_better :: "int list \<Rightarrow> int list \<times> time \<Rightarrow> int list \<times> time" where
  "keep_better w s = (if less_time (cost w) (snd s) then (w, Finite (cost w)) else s)"

text \<open>
  \<open>ws ! k\<close> is the first window of minimal cost: no window is cheaper, and every window
  before it costs strictly more.
\<close>

definition first_minimum :: "int list list \<Rightarrow> nat \<Rightarrow> bool" where
  "first_minimum ws k \<longleftrightarrow>
     k < length ws \<and> (\<forall>j<length ws. cost (ws ! k) \<le> cost (ws ! j))
     \<and> (\<forall>j<k. cost (ws ! k) < cost (ws ! j))"

text \<open>
  The room numbers of the fixed layout: \<open>floor * 100 + room\<close> for the floors 1 to
  \<open>floors\<close> and the rooms 1 to \<open>rooms_per_floor[floor - 1]\<close>.
\<close>

definition valid_rooms :: "int set" where
  "valid_rooms =
     {floor * 100 + room | floor room.
        1 \<le> floor \<and> floor \<le> floors \<and> 1 \<le> room \<and> room \<le> rooms_per_floor ! nat (floor - 1)}"

text \<open>
  A hotel reached from a fresh one by one random occupancy: the draws leave exactly the
  listed rooms free.
\<close>

definition hotel_with_free :: "int list \<Rightarrow> Hotel" where
  "hotel_with_free rooms =
     snd (generate_random_occupancy (\<lambda>room. room \<in> set rooms) Hotel_init)"

section \<open>Marking rooms and the fresh hotel\<close>

lemma set_rooms_Nil: "set_rooms v [] h = h"
  by (simp add: set_rooms_def)

lemma set_rooms_Cons:
  "set_rooms v (r # rs) h = set_rooms v rs (h\<lparr>available_rooms := (available_rooms h)(r \<mapsto> v)\<rparr>)"
  by (simp add: set_rooms_def)

lemma available_set_rooms:
  "available_rooms (set_rooms v rs h) r = (if r \<in> set rs then Some v else available_rooms h r)"
  by (induction rs arbitrary: h) (simp_all add: set_rooms_Nil set_rooms_Cons)

lemma init_101: "available_rooms Hotel_init 101 = Some True"
  by code_simp

lemma init_102: "available_rooms Hotel_init 102 = Some True"
  by code_simp

lemma init_999: "available_rooms Hotel_init 999 = None"
  by code_simp

lemma occupied_101: "available_rooms (set_rooms False [101] Hotel_init) 101 = Some False"
  by (simp add: available_set_rooms)

lemma occupied_101_free_102: "available_rooms (set_rooms False [101] Hotel_init) 102 = Some True"
  by (simp add: available_set_rooms init_102)

section \<open>The travel-time metric\<close>

text \<open>
  Claim C8. For every two room numbers the travel time is twice the floor difference plus
  the position difference, with floor = id div 100 and position = id mod 100; it is
  symmetric, and zero from a room to itself.
\<close>

theorem travel_time_metric:
  "travel_time a b = 2 * \<bar>a div 100 - b div 100\<bar> + \<bar>a mod 100 - b mod 100\<bar>
   \<and> travel_time a b = travel_time b a
   \<and> travel_time a a = 0"
  by (simp add: travel_time_def divmod_def abs_minus_commute)

section \<open>Booking named rooms\<close>

lemma first_unavailable_None:
  "first_unavailable h rooms = None \<longleftrightarrow> (\<forall>r\<in>set rooms. available_rooms h r = Some True)"
  by (induction rooms) (auto split: option.splits)

lemma first_unavailable_Some:
  "first_unavailable h rooms = Some r \<Longrightarrow>
   \<exists>pre post. rooms = pre @ r # post \<and> (\<forall>x\<in>set pre. available_rooms h x = Some True)
     \<and> available_rooms h r \<noteq> Some True"
proof (induction rooms)
  case Nil
  then show ?case by simp
next
  case (Cons a rooms)
  show ?case
  proof (cases "available_rooms h a = Some True")
    case True
    with Cons.prems have "first_unavailable h rooms = Some r" by simp
    from Cons.IH [OF this] obtain pre post where
      "rooms = pre @ r # post" "\<forall>x\<in>set pre. available_rooms h x = Some True"
      "available_rooms h r \<noteq> Some True" by blast
    with True have "a # rooms = (a # pre) @ r # post
      \<and> (\<forall>x\<in>set (a # pre). available_rooms h x = Some True)
      \<and> available_rooms h r \<noteq> Some True" by simp
    then show ?thesis by blast
  next
    case False
    with Cons.prems have "r = a" by (auto split: option.splits if_splits)
    with False have "a # rooms = [] @ r # rooms
      \<and> (\<forall>x\<in>set []. available_rooms h x = Some True)
      \<and> available_rooms h r \<noteq> Some True" by simp
    then show ?thesis by blast
  qed
qed

text \<open>
  Claim C2, as the code has it. Whenever some requested room is not a key of the inventory
  or is occupied, \<open>book_specific_rooms\<close> fails and leaves the hotel as it was, and the error
  names the first such room of the request (every room before it is free). The message is
  the same one, "Room r is not available.", whether the room is unknown or occupied.
\<close>

theorem book_specific_rooms_rejects:
  assumes "\<exists>r\<in>set rooms. available_rooms h r = None \<or> available_rooms h r = Some False"
  shows "\<exists>pre r post. rooms = pre @ r # post
           \<and> (\<forall>x\<in>set pre. available_rooms h x = Some True)
           \<and> (available_rooms h r = None \<or> available_rooms h r = Some False)
           \<and> first_unavailable h rooms = Some r
           \<and> book_specific_rooms h rooms = (Error (RoomNotAvailable r), h)"
proof -
  from assms obtain r0 where "r0 \<in> set rooms" "available_rooms h r0 \<noteq> Some True"
    by auto
  then have "first_unavailable h rooms \<noteq> None"
    unfolding first_unavailable_None by blast
  then obtain r where r: "first_unavailable h rooms = Some r" by blast
  from first_unavailable_Some [OF r] obtain pre post where
    d: "rooms = pre @ r # post" "\<forall>x\<in>set pre. available_rooms h x = Some True"
       "available_rooms h r \<noteq> Some True" by blast
  from d(3) have "available_rooms h r = None \<or> available_rooms h r = Some False"
    by (cases "available_rooms h r") auto
  moreover from r have "book_specific_rooms h rooms = (Error (RoomNotAvailable r), h)"
    by (simp add: book_specific_rooms_def)
  ultimately show ?thesis using d r by blast
qed

text \<open>
  The theorem at two requests: room 999 is no room of a fresh hotel, and room 101 is
  occupied once it has been booked.
\<close>

theorem book_specific_rooms_rejects_witness:
  "book_specific_rooms Hotel_init [101, 999] = (Error (RoomNotAvailable 999), Hotel_init)
   \<and> book_specific_rooms (set_rooms False [101] Hotel_init) [102, 101] =
       (Error (RoomNotAvailable 101), set_rooms False [101] Hotel_init)"
proof -
  have "\<exists>r\<in>set [101, 999]. available_rooms Hotel_init r = None
          \<or> available_rooms Hotel_init r = Some False"
    by (simp add: init_999)
  from book_specific_rooms_rejects [OF this] obtain r where
    "first_unavailable Hotel_init [101, 999] = Some r"
    "book_specific_rooms Hotel_init [101, 999] = (Error (RoomNotAvailable r), Hotel_init)"
    by blast
  moreover have "first_unavailable Hotel_init [101, 999] = Some 999"
    by (simp add: init_101 init_999)
  ultimately have a: "book_specific_rooms Hotel_init [101, 999] =
      (Error (RoomNotAvailable 999), Hotel_init)" by simp
  have "\<exists>r\<in>set [102, 101]. available_rooms (set_rooms False [101] Hotel_init) r = None
          \<or> available_rooms (set_rooms False [101] Hotel_init) r = Some False"
    by (simp add: occupied_101)
  from book_specific_rooms_rejects [OF this] obtain r where
    "first_unavailable (set_rooms False [101] Hotel_init) [102, 101] = Some r"
    "book_specific_rooms (set_rooms False [101] Hotel_init) [102, 101] =
       (Error (RoomNotAvailable r), set_rooms False [101] Hotel_init)"
    by blast
  moreover have "first_unavailable (set_rooms False [101] Hotel_init) [102, 101] = Some 101"
    by (simp add: occupied_101 occupied_101_free_102)
  ultimately have "book_specific_rooms (set_rooms False [101] Hotel_init) [102, 101] =
       (Error (RoomNotAvailable 101), set_rooms False [101] Hotel_init)" by simp
  with a show ?thesis by simp
qed

text \<open>
  Claim C2 as stated asks for two kinds of error. The code has one: the unknown room 999
  and the occupied room 101 are both answered with "Room r is not available.".
\<close>

theorem book_specific_rooms_one_error_counterexample:
  "available_rooms Hotel_init 999 = None
   \<and> book_specific_rooms Hotel_init [999] = (Error (RoomNotAvailable 999), Hotel_init)
   \<and> available_rooms (set_rooms False [101] Hotel_init) 101 = Some False
   \<and> book_specific_rooms (set_rooms False [101] Hotel_init) [101] =
       (Error (RoomNotAvailable 101), set_rooms False [101] Hotel_init)"
  by (simp add: init_999 occupied_101 book_specific_rooms_def)

text \<open>
  Claim C10. The request [101, 101] passes the router's count check, and on a fresh hotel
  \<open>book_specific_rooms\<close> accepts it: room 101 is free at both reads, the booking lists it
  twice in the caller's order, and the room ends occupied.
\<close>

theorem book_specific_rooms_duplicate:
  "validate_room_count [101, 101] = Inr [101, 101]
   \<and> available_rooms Hotel_init 101 = Some True
   \<and> book_specific_rooms Hotel_init [101, 101] =
       (Booked [101, 101] (Finite 0) SINGLE_FLOOR,
        Hotel_init\<lparr>available_rooms := (available_rooms Hotel_init)(101 \<mapsto> False)\<rparr>)"
proof -
  have "validate_room_count [101, 101] = Inr [101, 101]"
    by (simp add: validate_room_count_def)
  moreover have "first_unavailable Hotel_init [101, 101] = None"
    by (simp add: init_101)
  then have "book_specific_rooms Hotel_init [101, 101] =
       (Booked [101, 101] (Finite 0) SINGLE_FLOOR,
        Hotel_init\<lparr>available_rooms := (available_rooms Hotel_init)(101 \<mapsto> False)\<rparr>)"
    by (simp add: book_specific_rooms_def set_rooms_def travel_time_def divmod_def)
  ultimately show ?thesis using init_101 by simp
qed

section \<open>Cancelling\<close>

text \<open>
  Claim C1 asks that a cancellation with an invalid room change nothing. The code frees
  room 101 before it meets the invalid room 999: after booking 101 on a fresh hotel,
  cancelling [101, 999] returns the error for 999 and leaves 101 free.
\<close>

theorem cancel_booking_partial_commit:
  "book_specific_rooms Hotel_init [101] =
     (Booked [101] (Finite 0) SINGLE_FLOOR, set_rooms False [101] Hotel_init)
   \<and> available_rooms (set_rooms False [101] Hotel_init) 101 = Some False
   \<and> fst (cancel_booking (set_rooms False [101] Hotel_init) [101, 999]) = Error (RoomNotValid 999)
   \<and> available_rooms (snd (cancel_booking (set_rooms False [101] Hotel_init) [101, 999])) 101
       = Some True"
proof -
  have "book_specific_rooms Hotel_init [101] =
     (Booked [101] (Finite 0) SINGLE_FLOOR, set_rooms False [101] Hotel_init)"
    by (simp add: book_specific_rooms_def init_101)
  moreover have "999 \<notin> dom (available_rooms (set_rooms False [101] Hotel_init))"
    by (simp add: domIff available_set_rooms init_999)
  then have "cancel_booking (set_rooms False [101] Hotel_init) [101, 999] =
     (Error (RoomNotValid 999),
      (set_rooms False [101] Hotel_init)
        \<lparr>available_rooms := (available_rooms (set_rooms False [101] Hotel_init))(101 \<mapsto> True)\<rparr>)"
    by (simp add: cancel_booking_def domIff occupied_101)
  ultimately show ?thesis by (simp add: occupied_101)
qed

section \<open>Automatic booking: the request check\<close>

text \<open>
  Claim C7. For every hotel and every count below 1 or above 5, \<open>book_rooms\<close> returns an
  error about the requested count ("Maximum 5 rooms per booking allowed." above 5,
  "Invalid number of rooms requested." below 1) and the hotel is unchanged.
\<close>

theorem book_rooms_invalid_request:
  "n < 1 \<or> 5 < n \<Longrightarrow>
   book_rooms h n =
     Inr (Error (if 5 < n then MaximumRoomsPerBooking else InvalidNumberOfRooms), h)"
  by (auto simp: book_rooms_def)

theorem book_rooms_invalid_request_witness:
  "book_rooms Hotel_init 6 = Inr (Error MaximumRoomsPerBooking, Hotel_init)
   \<and> book_rooms Hotel_init 0 = Inr (Error InvalidNumberOfRooms, Hotel_init)
   \<and> book_rooms Hotel_init (- 3) = Inr (Error InvalidNumberOfRooms, Hotel_init)"
  using book_rooms_invalid_request [of 6 Hotel_init]
    book_rooms_invalid_request [of 0 Hotel_init]
    book_rooms_invalid_request [of "- 3" Hotel_init]
  by simp

section \<open>The two searches as folds over their windows\<close>

lemma getitem_rooms_per_floor:
  "1 \<le> f \<Longrightarrow> f \<le> 10 \<Longrightarrow> getitem rooms_per_floor (f - 1) = Inr (if f = 10 then 7 else 10)"
  by (auto simp: getitem_def rooms_per_floor_def nth_append)

lemma fold_collect:
  "fold (\<lambda>x acc. if P x then acc @ [g x] else acc) xs acc = acc @ map g (filter P xs)"
  by (induction xs arbitrary: acc) simp_all

lemma get_available_rooms_on_floor_eq:
  assumes "1 \<le> f" "f \<le> 10"
  shows "get_available_rooms_on_floor h f =
           Inr (filter (\<lambda>r. available_rooms h r = Some True)
                  (map (\<lambda>i. f * 100 + i) [1 .. (if f = 10 then 7 else 10)]))"
proof -
  have P: "dict_get (available_rooms h) r False \<longleftrightarrow> available_rooms h r = Some True" for r
    by (simp add: dict_get_def split: option.splits)
  have "fold (\<lambda>room floor_rooms.
               if dict_get (available_rooms h) (f * 100 + room) False
               then floor_rooms @ [f * 100 + room] else floor_rooms) xs [] =
        filter (\<lambda>r. available_rooms h r = Some True) (map (\<lambda>i. f * 100 + i) xs)" for xs
    using fold_collect [of "\<lambda>room. dict_get (available_rooms h) (f * 100 + room) False"
        "\<lambda>room. f * 100 + room" xs "[]"]
    by (simp add: P filter_map comp_def)
  then show ?thesis
    using assms
    by (simp add: get_available_rooms_on_floor_def getitem_rooms_per_floor py_range2_def
        Let_def)
qed

lemma free_rooms_eq:
  "1 \<le> f \<Longrightarrow> f \<le> 10 \<Longrightarrow>
   free_rooms h f = filter (\<lambda>r. available_rooms h r = Some True)
                      (map (\<lambda>i. f * 100 + i) [1 .. (if f = 10 then 7 else 10)])"
  by (simp add: free_rooms_def get_available_rooms_on_floor_eq)

lemma get_available_rooms_on_floor_free:
  "1 \<le> f \<Longrightarrow> f \<le> 10 \<Longrightarrow> get_available_rooms_on_floor h f = Inr (free_rooms h f)"
  by (simp add: free_rooms_def get_available_rooms_on_floor_eq)

lemma for_loop_fold:
  "(\<And>x s. x \<in> set xs \<Longrightarrow> body x s = Inr (g x s)) \<Longrightarrow> for_loop xs body s = Inr (fold g xs s)"
  by (induction xs arbitrary: s) simp_all

lemma window_step_eq:
  assumes "0 \<le> i" "1 \<le> n" "i + n \<le> int (length xs)"
  shows "window_step xs n i s = Inr (keep_better (take (nat n) (drop (nat i) xs)) s)"
proof -
  let ?w = "take (nat n) (drop (nat i) xs)"
  have lo: "slice_bound (length xs) i = nat i"
    using assms by (simp add: slice_bound_def)
  have hi: "slice_bound (length xs) (i + n) = nat i + nat n"
    using assms by (simp add: slice_bound_def nat_add_distrib)
  have sl: "py_slice xs i (i + n) = ?w"
    by (simp add: py_slice_def lo hi)
  have len: "length ?w = nat n" using assms by simp
  then have ne: "?w \<noteq> []" using assms by auto
  have a: "getitem ?w 0 = Inr (hd ?w)"
    using ne len assms by (simp add: getitem_def hd_conv_nth del: length_take take_eq_Nil)
  have "nat (int (length ?w) + (- 1)) = length ?w - 1" by (simp add: nat_diff_distrib')
  then have b: "getitem ?w (- 1) = Inr (last ?w)"
    using ne len assms
    by (simp add: getitem_def last_conv_nth del: length_take take_eq_Nil)
  show ?thesis
    unfolding window_step_def sl Let_def a b
    by (simp add: keep_better_def cost_def)
qed

lemma map_nat_upto: "map nat [0 .. int k] = [0 ..< Suc k]"
proof (induction k)
  case 0
  then show ?case by simp
next
  case (Suc k)
  have "[0 .. int (Suc k)] = [0 .. int k] @ [int (Suc k)]"
    using upto_rec2 [of 0 "int (Suc k)"] by simp
  with Suc show ?case by simp
qed

lemma window_loop_eq:
  assumes "1 \<le> n" "n \<le> int (length xs)"
  shows "for_loop (py_range (int (length xs) - n + 1)) (window_step xs n) s =
           Inr (fold keep_better (windows xs (nat n)) s)"
proof -
  let ?k = "length xs - nat n"
  have r: "py_range (int (length xs) - n + 1) = [0 .. int ?k]"
    using assms by (simp add: py_range_def py_range2_def nat_diff_distrib' of_nat_diff)
  have "for_loop [0 .. int ?k] (window_step xs n) s =
          Inr (fold (\<lambda>i. keep_better (take (nat n) (drop (nat i) xs))) [0 .. int ?k] s)"
  proof (rule for_loop_fold)
    fix i s'
    assume "i \<in> set [0 .. int ?k]"
    then have "0 \<le> i" "i + n \<le> int (length xs)" using assms by auto
    then show "window_step xs n i s' = Inr (keep_better (take (nat n) (drop (nat i) xs)) s')"
      using assms window_step_eq by simp
  qed
  also have "fold (\<lambda>i. keep_better (take (nat n) (drop (nat i) xs))) [0 .. int ?k] s =
      fold keep_better (map (\<lambda>i. take (nat n) (drop i xs)) (map nat [0 .. int ?k])) s"
    by (simp add: fold_map comp_def)
  also have "map (\<lambda>i. take (nat n) (drop i xs)) (map nat [0 .. int ?k]) = windows xs (nat n)"
    using assms unfolding map_nat_upto by (simp add: windows_def)
  finally show ?thesis using r by simp
qed

lemma fold_concat_map:
  "fold g (concat (map w xs)) s = fold (\<lambda>x. fold g (w x)) xs s"
  by (induction xs arbitrary: s) simp_all

lemma find_best_rooms_single_floor_eq:
  assumes "1 \<le> n"
  shows "find_best_rooms_single_floor h n =
           Inr (fold keep_better (single_floor_windows h (nat n)) ([], Infinity))"
proof -
  have "for_loop (py_range2 1 (floors + 1))
       (\<lambda>floor s.
          case get_available_rooms_on_floor h floor of
            Inl e \<Rightarrow> Inl e
          | Inr available \<Rightarrow>
              if int (length available) \<ge> n
              then for_loop (py_range (int (length available) - n + 1))
                     (window_step available n) s
              else Inr s)
       ([], Infinity) =
     Inr (fold (\<lambda>f. fold keep_better (windows (free_rooms h f) (nat n))) (py_range2 1 (floors + 1))
            ([], Infinity))"
  proof (rule for_loop_fold)
    fix f s
    assume "f \<in> set (py_range2 1 (floors + 1))"
    then have f: "1 \<le> f" "f \<le> 10" by (simp_all add: py_range2_def floors_def)
    show "(case get_available_rooms_on_floor h f of
            Inl e \<Rightarrow> Inl e
          | Inr available \<Rightarrow>
              if int (length available) \<ge> n
              then for_loop (py_range (int (length available) - n + 1))
                     (window_step available n) s
              else Inr s) = Inr (fold keep_better (windows (free_rooms h f) (nat n)) s)"
    proof (cases "n \<le> int (length (free_rooms h f))")
      case True
      then show ?thesis
        using assms f by (simp add: get_available_rooms_on_floor_free window_loop_eq)
    next
      case False
      then have "windows (free_rooms h f) (nat n) = []"
        using assms by (simp add: windows_def)
      with False show ?thesis
        using f by (simp add: get_available_rooms_on_floor_free)
    qed
  qed
  then show ?thesis
    by (simp add: find_best_rooms_single_floor_def single_floor_windows_def fold_concat_map
        py_range2_def)
qed

lemma keep_better_snoc:
  "fold keep_better (ws @ [w]) s = keep_better w (fold keep_better ws s)"
  by simp

lemma first_minimum_single: "first_minimum [w] 0"
  by (simp add: first_minimum_def)

lemma first_minimum_new:
  assumes "first_minimum ws k" "cost w < cost (ws ! k)"
  shows "first_minimum (ws @ [w]) (length ws)"
  unfolding first_minimum_def
proof (intro conjI allI impI)
  show "length ws < length (ws @ [w])" by simp
next
  fix j assume "j < length (ws @ [w])"
  then consider "j < length ws" | "j = length ws" by fastforce
  then show "cost ((ws @ [w]) ! length ws) \<le> cost ((ws @ [w]) ! j)"
  proof cases
    case 1
    with assms have "cost (ws ! k) \<le> cost (ws ! j)" by (simp add: first_minimum_def)
    with assms(2) 1 show ?thesis by (simp add: nth_append)
  next
    case 2
    then show ?thesis by simp
  qed
next
  fix j assume j: "j < length ws"
  with assms have "cost (ws ! k) \<le> cost (ws ! j)" by (simp add: first_minimum_def)
  with assms(2) j show "cost ((ws @ [w]) ! length ws) < cost ((ws @ [w]) ! j)"
    by (simp add: nth_append)
qed

lemma first_minimum_old:
  assumes "first_minimum ws k" "\<not> cost w < cost (ws ! k)"
  shows "first_minimum (ws @ [w]) k"
  unfolding first_minimum_def
proof (intro conjI allI impI)
  from assms show k: "k < length (ws @ [w])" by (simp add: first_minimum_def)
next
  from assms have k: "k < length ws" by (simp add: first_minimum_def)
  fix j assume "j < length (ws @ [w])"
  then consider "j < length ws" | "j = length ws" by fastforce
  then show "cost ((ws @ [w]) ! k) \<le> cost ((ws @ [w]) ! j)"
  proof cases
    case 1
    with assms k show ?thesis by (simp add: first_minimum_def nth_append)
  next
    case 2
    with assms(2) k show ?thesis by (simp add: nth_append)
  qed
next
  from assms have k: "k < length ws" by (simp add: first_minimum_def)
  fix j assume "j < k"
  with assms k show "cost ((ws @ [w]) ! k) < cost ((ws @ [w]) ! j)"
    by (simp add: first_minimum_def nth_append)
qed

lemma fold_keep_better_first_minimum:
  "ws \<noteq> [] \<Longrightarrow>
   \<exists>k. first_minimum ws k
     \<and> fold keep_better ws ([], Infinity) = (ws ! k, Finite (cost (ws ! k)))"
proof (induction ws rule: rev_induct)
  case Nil
  then show ?case by simp
next
  case (snoc w ws)
  show ?case
  proof (cases "ws = []")
    case True
    then have "fold keep_better (ws @ [w]) ([], Infinity) = ((ws @ [w]) ! 0, Finite (cost ((ws @ [w]) ! 0)))"
      by (simp add: keep_better_def)
    moreover from True have "first_minimum (ws @ [w]) 0"
      by (simp add: first_minimum_single)
    ultimately show ?thesis by blast
  next
    case False
    from snoc.IH [OF False] obtain k where
      k: "first_minimum ws k"
         "fold keep_better ws ([], Infinity) = (ws ! k, Finite (cost (ws ! k)))" by blast
    then have kl: "k < length ws" by (simp add: first_minimum_def)
    show ?thesis
    proof (cases "cost w < cost (ws ! k)")
      case True
      with k have "fold keep_better (ws @ [w]) ([], Infinity) =
          ((ws @ [w]) ! length ws, Finite (cost ((ws @ [w]) ! length ws)))"
        by (simp add: keep_better_def)
      with first_minimum_new [OF k(1) True] show ?thesis by blast
    next
      case False
      with k kl have "fold keep_better (ws @ [w]) ([], Infinity) =
          ((ws @ [w]) ! k, Finite (cost ((ws @ [w]) ! k)))"
        by (simp add: keep_better_def nth_append)
      with first_minimum_old [OF k(1) False] show ?thesis by blast
    qed
  qed
qed

lemma windows_Nil_iff: "windows xs n = [] \<longleftrightarrow> length xs < n"
  by (auto simp: windows_def)

lemma windows_mem:
  "w \<in> set (windows xs n) \<Longrightarrow> length w = n \<and> set w \<subseteq> set xs"
  by (auto simp: windows_def split: if_splits dest: in_set_takeD in_set_dropD)

lemma free_rooms_mem:
  "r \<in> set (free_rooms h f) \<Longrightarrow> 1 \<le> f \<Longrightarrow> f \<le> 10 \<Longrightarrow>
   available_rooms h r = Some True \<and> r div 100 = f"
  by (auto simp: free_rooms_eq split: if_splits)

lemma single_floor_windows_mem:
  assumes "w \<in> set (single_floor_windows h n)"
  shows "length w = n \<and> (\<exists>f. \<forall>r\<in>set w. available_rooms h r = Some True \<and> r div 100 = f)"
proof -
  from assms obtain f where f: "1 \<le> f" "f \<le> 10" "w \<in> set (windows (free_rooms h f) n)"
    by (auto simp: single_floor_windows_def floors_def)
  from windows_mem [OF f(3)] have "length w = n" "set w \<subseteq> set (free_rooms h f)" by simp_all
  with f free_rooms_mem show ?thesis by blast
qed

lemma single_floor_windows_Nil_iff:
  "single_floor_windows h n = [] \<longleftrightarrow> (\<forall>f\<in>{1 .. floors}. length (free_rooms h f) < n)"
  by (simp add: single_floor_windows_def windows_Nil_iff)

lemma fold_extend: "fold (\<lambda>x acc. acc @ g x) xs acc = acc @ concat (map g xs)"
  by (induction xs arbitrary: acc) simp_all

lemma find_best_rooms_multi_floor_eq:
  assumes "1 \<le> n"
  shows "find_best_rooms_multi_floor h n =
           Inr (fold keep_better (windows (all_free_rooms h) (nat n)) ([], Infinity))"
proof -
  have "for_loop (py_range2 1 (floors + 1))
             (\<lambda>floor all_available.
                case get_available_rooms_on_floor h floor of
                  Inl e \<Rightarrow> Inl e
                | Inr floor_rooms \<Rightarrow> Inr (all_available @ floor_rooms))
             [] = Inr (fold (\<lambda>f acc. acc @ free_rooms h f) (py_range2 1 (floors + 1)) [])"
  proof (rule for_loop_fold)
    fix f s
    assume "f \<in> set (py_range2 1 (floors + 1))"
    then have "1 \<le> f" "f \<le> 10" by (simp_all add: py_range2_def floors_def)
    then show "(case get_available_rooms_on_floor h f of
                  Inl e \<Rightarrow> Inl e
                | Inr floor_rooms \<Rightarrow> Inr (s @ floor_rooms)) = Inr (s @ free_rooms h f)"
      by (simp add: get_available_rooms_on_floor_free)
  qed
  then have collect: "for_loop (py_range2 1 (floors + 1))
             (\<lambda>floor all_available.
                case get_available_rooms_on_floor h floor of
                  Inl e \<Rightarrow> Inl e
                | Inr floor_rooms \<Rightarrow> Inr (all_available @ floor_rooms))
             [] = Inr (concat (map (free_rooms h) [1 .. floors]))"
    by (simp add: fold_extend py_range2_def)
  have len: "length (all_free_rooms h) = length (concat (map (free_rooms h) [1 .. floors]))"
    by (simp add: all_free_rooms_def)
  show ?thesis
  proof (cases "int (length (all_free_rooms h)) < n")
    case True
    then have "windows (all_free_rooms h) (nat n) = []"
      using assms by (simp add: windows_Nil_iff)
    with True show ?thesis
      unfolding find_best_rooms_multi_floor_def collect using len by simp
  next
    case False
    then have "n \<le> int (length (all_free_rooms h))" by simp
    from window_loop_eq [OF assms this] False show ?thesis
      unfolding find_best_rooms_multi_floor_def collect
      using len by (simp add: all_free_rooms_def Let_def)
  qed
qed

lemma all_free_rooms_mem:
  "r \<in> set (all_free_rooms h) \<Longrightarrow> available_rooms h r = Some True"
  using free_rooms_mem by (auto simp: all_free_rooms_def floors_def)

lemma fold_keep_better_mem:
  "fst (fold keep_better ws s) = fst s \<or> fst (fold keep_better ws s) \<in> set ws"
proof (induction ws rule: rev_induct)
  case Nil
  then show ?case by simp
next
  case (snoc w ws)
  then show ?case by (auto simp: keep_better_def)
qed

section \<open>Automatic booking and the key set\<close>

lemma book_rooms_valid:
  assumes "1 \<le> n" "n \<le> 5"
  shows "book_rooms h n =
    (case fold keep_better (single_floor_windows h (nat n)) ([], Infinity) of
       (best_single_floor, time_single) \<Rightarrow>
         if best_single_floor = [] then
           (case fold keep_better (windows (all_free_rooms h) (nat n)) ([], Infinity) of
              (best_multi_floor, time_multi) \<Rightarrow>
                if best_multi_floor = [] then Inr (Error NotEnoughRooms, h)
                else Inr (Booked best_multi_floor time_multi MULTI_FLOOR,
                          set_rooms False best_multi_floor h))
         else Inr (Booked best_single_floor time_single SINGLE_FLOOR,
                   set_rooms False best_single_floor h))"
  using assms
  by (auto simp: book_rooms_def find_best_rooms_single_floor_eq find_best_rooms_multi_floor_eq
      split: prod.splits)

lemma best_window_mem:
  "fold keep_better ws ([], Infinity) = (rooms, t) \<Longrightarrow> rooms \<noteq> [] \<Longrightarrow> rooms \<in> set ws"
  using fold_keep_better_mem [of ws "([], Infinity)"] by auto

lemma book_rooms_Booked:
  assumes "book_rooms h n = Inr (Booked rooms t ty, h')"
  shows "1 \<le> n \<and> n \<le> 5 \<and> h' = set_rooms False rooms h \<and> rooms \<noteq> []
         \<and> (\<forall>r\<in>set rooms. available_rooms h r = Some True)"
proof -
  have n: "1 \<le> n" "n \<le> 5"
    using assms by (auto simp: book_rooms_def split: if_splits)
  obtain bs ts where s: "fold keep_better (single_floor_windows h (nat n)) ([], Infinity) = (bs, ts)"
    by (cases "fold keep_better (single_floor_windows h (nat n)) ([], Infinity)")
  obtain bm tm where m: "fold keep_better (windows (all_free_rooms h) (nat n)) ([], Infinity) = (bm, tm)"
    by (cases "fold keep_better (windows (all_free_rooms h) (nat n)) ([], Infinity)")
  show ?thesis
  proof (cases "bs = []")
    case False
    with assms s have e: "rooms = bs" "h' = set_rooms False rooms h"
      by (auto simp: book_rooms_valid [OF n])
    from best_window_mem [OF s False] single_floor_windows_mem
    have "\<forall>r\<in>set bs. available_rooms h r = Some True" by blast
    with e False n show ?thesis by simp
  next
    case True
    with assms s m have ne: "bm \<noteq> []"
      by (auto simp: book_rooms_valid [OF n] split: if_splits)
    with assms s m True have e: "rooms = bm" "h' = set_rooms False rooms h"
      by (auto simp: book_rooms_valid [OF n])
    from best_window_mem [OF m ne] have "set bm \<subseteq> set (all_free_rooms h)"
      using windows_mem by blast
    then have "\<forall>r\<in>set bm. available_rooms h r = Some True"
      using all_free_rooms_mem by blast
    with e ne n show ?thesis by simp
  qed
qed

text \<open>
  Claim C3. For every hotel and every count from 1 to 5: if some floor has at least that
  many free rooms, \<open>book_rooms\<close> returns the result of the single-floor search, classified
  single-floor, with as many rooms as requested, all on one floor, and marks exactly these
  rooms; it returns no multi-floor booking, whatever the multi-floor search would find.
\<close>

theorem book_rooms_prefers_single_floor:
  assumes "1 \<le> n" "n \<le> 5" "1 \<le> f" "f \<le> floors"
    and "get_available_rooms_on_floor h f = Inr free" "n \<le> int (length free)"
  shows "(\<exists>rooms t g.
            find_best_rooms_single_floor h n = Inr (rooms, t)
            \<and> book_rooms h n = Inr (Booked rooms t SINGLE_FLOOR, set_rooms False rooms h)
            \<and> length rooms = nat n
            \<and> (\<forall>r\<in>set rooms. r div 100 = g))
         \<and> (\<forall>rooms t h'. book_rooms h n \<noteq> Inr (Booked rooms t MULTI_FLOOR, h'))"
proof -
  let ?ws = "single_floor_windows h (nat n)"
  from assms have "free_rooms h f = free" by (simp add: free_rooms_def)
  with assms have "f \<in> {1 .. floors}" "\<not> length (free_rooms h f) < nat n"
    by auto
  then have "\<not> (\<forall>f\<in>{1 .. floors}. length (free_rooms h f) < nat n)"
    by blast
  then have "?ws \<noteq> []" by (simp add: single_floor_windows_Nil_iff)
  from fold_keep_better_first_minimum [OF this] obtain k where
    k: "k < length ?ws" "fold keep_better ?ws ([], Infinity) = (?ws ! k, Finite (cost (?ws ! k)))"
    by (auto simp: first_minimum_def)
  then have "?ws ! k \<in> set ?ws" by simp
  from single_floor_windows_mem [OF this] obtain g where
    g: "length (?ws ! k) = nat n" "\<forall>r\<in>set (?ws ! k). r div 100 = g" by blast
  with assms(1) have ne: "?ws ! k \<noteq> []" by auto
  have a: "find_best_rooms_single_floor h n = Inr (?ws ! k, Finite (cost (?ws ! k)))"
    using assms(1) k by (simp add: find_best_rooms_single_floor_eq)
  have b: "book_rooms h n = Inr (Booked (?ws ! k) (Finite (cost (?ws ! k))) SINGLE_FLOOR,
        set_rooms False (?ws ! k) h)"
    using k ne by (simp add: book_rooms_valid [OF assms(1,2)])
  from a b g have "\<exists>rooms t g.
            find_best_rooms_single_floor h n = Inr (rooms, t)
            \<and> book_rooms h n = Inr (Booked rooms t SINGLE_FLOOR, set_rooms False rooms h)
            \<and> length rooms = nat n
            \<and> (\<forall>r\<in>set rooms. r div 100 = g)" by blast
  moreover from b have "\<forall>rooms t h'. book_rooms h n \<noteq> Inr (Booked rooms t MULTI_FLOOR, h')"
    by simp
  ultimately show ?thesis by blast
qed

text \<open>
  Claim C4. For every hotel and every count of at least 1: the free rooms of a floor are
  its room numbers in ascending order with the occupied ones left out; the single-floor
  search returns the first window of minimal cost among the windows of all floors, taken
  by ascending floor and then ascending start, together with its cost; and it returns the
  empty list with infinite cost exactly when no floor has enough free rooms.
\<close>

theorem find_best_rooms_single_floor_first_minimum:
  assumes "1 \<le> n"
  shows "(\<forall>f\<in>{1 .. floors}.
            get_available_rooms_on_floor h f = Inr (free_rooms h f)
            \<and> free_rooms h f =
                filter (\<lambda>r. available_rooms h r = Some True)
                  (map (\<lambda>i. f * 100 + i) [1 .. rooms_per_floor ! nat (f - 1)]))
         \<and> (single_floor_windows h (nat n) = []
              \<longleftrightarrow> (\<forall>f\<in>{1 .. floors}. int (length (free_rooms h f)) < n))
         \<and> (single_floor_windows h (nat n) = []
              \<longrightarrow> find_best_rooms_single_floor h n = Inr ([], Infinity))
         \<and> (single_floor_windows h (nat n) \<noteq> []
              \<longrightarrow> (\<exists>k. first_minimum (single_floor_windows h (nat n)) k
                     \<and> find_best_rooms_single_floor h n =
                         Inr (single_floor_windows h (nat n) ! k,
                              Finite (cost (single_floor_windows h (nat n) ! k)))))"
proof (intro conjI ballI impI)
  fix f assume "f \<in> {1 .. floors}"
  then have f: "1 \<le> f" "f \<le> 10" by (simp_all add: floors_def)
  then show "get_available_rooms_on_floor h f = Inr (free_rooms h f)"
    by (rule get_available_rooms_on_floor_free)
  have "rooms_per_floor ! nat (f - 1) = (if f = 10 then 7 else 10)"
    using f getitem_rooms_per_floor [of f] by (simp add: getitem_def rooms_per_floor_def)
  with f show "free_rooms h f =
                filter (\<lambda>r. available_rooms h r = Some True)
                  (map (\<lambda>i. f * 100 + i) [1 .. rooms_per_floor ! nat (f - 1)])"
    by (simp add: free_rooms_eq)
next
  have "length xs < nat n \<longleftrightarrow> int (length xs) < n" for xs :: "int list"
    using assms by auto
  then show "single_floor_windows h (nat n) = []
              \<longleftrightarrow> (\<forall>f\<in>{1 .. floors}. int (length (free_rooms h f)) < n)"
    by (simp add: single_floor_windows_Nil_iff)
next
  assume "single_floor_windows h (nat n) = []"
  then show "find_best_rooms_single_floor h n = Inr ([], Infinity)"
    using assms by (simp add: find_best_rooms_single_floor_eq)
next
  assume "single_floor_windows h (nat n) \<noteq> []"
  from fold_keep_better_first_minimum [OF this] show
    "\<exists>k. first_minimum (single_floor_windows h (nat n)) k
                     \<and> find_best_rooms_single_floor h n =
                         Inr (single_floor_windows h (nat n) ! k,
                              Finite (cost (single_floor_windows h (nat n) ! k)))"
    using assms by (simp add: find_best_rooms_single_floor_eq)
qed

text \<open>
  Claim C5. Whenever \<open>book_rooms\<close> returns a booking, every booked room was free before
  the call and is occupied after it, and every other room is as it was.
\<close>

theorem book_rooms_frame:
  assumes "book_rooms h n = Inr (Booked rooms t ty, h')"
  shows "(\<forall>r\<in>set rooms. available_rooms h r = Some True \<and> available_rooms h' r = Some False)
         \<and> (\<forall>r. r \<notin> set rooms \<longrightarrow> available_rooms h' r = available_rooms h r)"
  using book_rooms_Booked [OF assms] by (simp add: available_set_rooms)

lemma cancel_loop_known:
  "\<forall>r\<in>set rooms. r \<in> dom (available_rooms h) \<Longrightarrow>
   cancel_loop rooms h = (None, set_rooms True rooms h)"
proof (induction rooms arbitrary: h)
  case Nil
  then show ?case by (simp add: set_rooms_Nil)
next
  case (Cons r rooms)
  let ?h = "h\<lparr>available_rooms := (available_rooms h)(r \<mapsto> True)\<rparr>"
  from Cons.prems have "\<forall>x\<in>set rooms. x \<in> dom (available_rooms ?h)" by auto
  from Cons.IH [OF this] Cons.prems show ?case by (simp add: set_rooms_Cons)
qed

lemma Hotel_eqI: "available_rooms h = available_rooms (h' :: Hotel) \<Longrightarrow> h = h'"
  by simp

text \<open>
  Claim C6. Whenever \<open>book_rooms\<close> returns a booking, cancelling the booked rooms in the
  hotel it leaves succeeds and gives back the hotel as it was before the booking.
\<close>

theorem cancel_after_book_rooms_restores:
  assumes "book_rooms h n = Inr (Booked rooms t ty, h')"
  shows "cancel_booking h' rooms = (Success (CanceledBooking rooms), h)"
proof -
  from book_rooms_Booked [OF assms] have
    h': "h' = set_rooms False rooms h" and
    free: "\<forall>r\<in>set rooms. available_rooms h r = Some True" by simp_all
  have "\<forall>r\<in>set rooms. r \<in> dom (available_rooms h')"
    by (simp add: h' available_set_rooms domIff)
  then have "cancel_loop rooms h' = (None, set_rooms True rooms h')"
    by (rule cancel_loop_known)
  moreover have "set_rooms True rooms h' = h"
  proof (rule Hotel_eqI, rule ext)
    fix r
    show "available_rooms (set_rooms True rooms h') r = available_rooms h r"
      using free by (simp add: h' available_set_rooms)
  qed
  ultimately show ?thesis by (simp add: cancel_booking_def)
qed

lemma book_rooms_cases:
  "(\<exists>e. book_rooms h n = Inr (Error e, h))
   \<or> (\<exists>rooms t ty. book_rooms h n = Inr (Booked rooms t ty, set_rooms False rooms h)
         \<and> (\<forall>r\<in>set rooms. available_rooms h r = Some True))"
proof (cases "1 \<le> n \<and> n \<le> 5")
  case False
  then show ?thesis by (auto simp: book_rooms_def)
next
  case True
  then have n: "1 \<le> n" "n \<le> 5" by simp_all
  obtain bs ts where s: "fold keep_better (single_floor_windows h (nat n)) ([], Infinity) = (bs, ts)"
    by (cases "fold keep_better (single_floor_windows h (nat n)) ([], Infinity)")
  obtain bm tm where m: "fold keep_better (windows (all_free_rooms h) (nat n)) ([], Infinity) = (bm, tm)"
    by (cases "fold keep_better (windows (all_free_rooms h) (nat n)) ([], Infinity)")
  consider "bs \<noteq> []" | "bs = []" "bm \<noteq> []" | "bs = []" "bm = []" by blast
  then show ?thesis
  proof cases
    case 1
    with s have b: "book_rooms h n = Inr (Booked bs ts SINGLE_FLOOR, set_rooms False bs h)"
      by (simp add: book_rooms_valid [OF n])
    from book_rooms_Booked [OF b] b show ?thesis by blast
  next
    case 2
    with s m have b: "book_rooms h n = Inr (Booked bm tm MULTI_FLOOR, set_rooms False bm h)"
      by (simp add: book_rooms_valid [OF n])
    from book_rooms_Booked [OF b] b show ?thesis by blast
  next
    case 3
    with s m have "book_rooms h n = Inr (Error NotEnoughRooms, h)"
      by (simp add: book_rooms_valid [OF n])
    then show ?thesis by blast
  qed
qed

lemma dom_set_rooms:
  "dom (available_rooms (set_rooms v rs h)) = dom (available_rooms h) \<union> set rs"
  by (auto simp: domIff available_set_rooms split: if_splits)

lemma dom_book_rooms:
  "\<exists>resp h'. book_rooms h n = Inr (resp, h')
     \<and> dom (available_rooms h') = dom (available_rooms h)"
proof -
  from book_rooms_cases [of h n] show ?thesis
  proof
    assume "\<exists>e. book_rooms h n = Inr (Error e, h)"
    then show ?thesis by blast
  next
    assume "\<exists>rooms t ty. book_rooms h n = Inr (Booked rooms t ty, set_rooms False rooms h)
         \<and> (\<forall>r\<in>set rooms. available_rooms h r = Some True)"
    then obtain rooms t ty where
      b: "book_rooms h n = Inr (Booked rooms t ty, set_rooms False rooms h)"
      and free: "\<forall>r\<in>set rooms. available_rooms h r = Some True" by blast
    from free have "set rooms \<subseteq> dom (available_rooms h)" by (auto simp: domIff)
    then have "dom (available_rooms (set_rooms False rooms h)) = dom (available_rooms h)"
      by (auto simp: dom_set_rooms)
    with b show ?thesis by blast
  qed
qed

lemma dom_book_specific_rooms:
  "dom (available_rooms (snd (book_specific_rooms h rooms))) = dom (available_rooms h)"
proof (cases "first_unavailable h rooms")
  case None
  then have "set rooms \<subseteq> dom (available_rooms h)"
    by (auto simp: first_unavailable_None domIff)
  with None show ?thesis
    by (auto simp: book_specific_rooms_def Let_def dom_set_rooms)
next
  case (Some r)
  then show ?thesis by (simp add: book_specific_rooms_def)
qed

lemma dom_cancel_loop:
  "dom (available_rooms (snd (cancel_loop rooms h))) = dom (available_rooms h)"
  by (induction rooms arbitrary: h) (auto simp: domIff)

lemma dom_cancel_booking:
  "dom (available_rooms (snd (cancel_booking h rooms))) = dom (available_rooms h)"
proof (cases "cancel_loop rooms h")
  case (Pair e h')
  with dom_cancel_loop [of rooms h] have "dom (available_rooms h') = dom (available_rooms h)"
    by simp
  with Pair show ?thesis by (cases e) (simp_all add: cancel_booking_def)
qed

lemma dom_generate_random_occupancy:
  "dom (available_rooms (snd (generate_random_occupancy choice h))) = dom (available_rooms h)"
  by (auto simp: generate_random_occupancy_def domIff split: option.splits)

lemma dom_fold_rooms:
  "dom (fold (\<lambda>room available. available(f * 100 + room \<mapsto> True)) xs m) =
     dom m \<union> (\<lambda>room. f * 100 + room) ` set xs"
  by (induction xs arbitrary: m) auto

lemma dom_fold_floors:
  "dom (fold (\<lambda>floor available.
             let rooms_count = rc floor
             in fold (\<lambda>room available. available(floor * 100 + room \<mapsto> True))
                  (py_range2 1 (rooms_count + 1)) available) fs m) =
     dom m \<union> (\<Union>floor\<in>set fs. (\<lambda>room. floor * 100 + room) ` {1 .. rc floor})"
  by (induction fs arbitrary: m) (auto simp: dom_fold_rooms py_range2_def Let_def)

lemma dom_initialize_rooms: "dom initialize_rooms = valid_rooms"
proof -
  have "dom initialize_rooms =
      (\<Union>floor\<in>{1 .. floors}.
          (\<lambda>room. floor * 100 + room) ` {1 .. rooms_per_floor ! nat (floor - 1)})"
    unfolding initialize_rooms_def dom_fold_floors by (simp add: py_range2_def)
  also have "\<dots> = valid_rooms"
  proof (rule set_eqI)
    fix r
    show "r \<in> (\<Union>floor\<in>{1 .. floors}.
          (\<lambda>room. floor * 100 + room) ` {1 .. rooms_per_floor ! nat (floor - 1)})
        \<longleftrightarrow> r \<in> valid_rooms"
      unfolding valid_rooms_def UN_iff image_iff mem_Collect_eq atLeastAtMost_iff Bex_def
      by blast
  qed
  finally show ?thesis .
qed

lemma rooms_per_floor_nth:
  "1 \<le> f \<Longrightarrow> f \<le> 10 \<Longrightarrow> rooms_per_floor ! nat (f - 1) = (if f = 10 then 7 else 10)"
  using getitem_rooms_per_floor [of f] by (simp add: getitem_def rooms_per_floor_def)

lemma valid_rooms_explicit:
  "valid_rooms = (\<Union>f\<in>{1 .. 9}. {f * 100 + 1 .. f * 100 + 10}) \<union> {1001 .. 1007}"
proof (rule set_eqI)
  fix r :: int
  have "r \<in> valid_rooms \<longleftrightarrow>
        (\<exists>f. 1 \<le> f \<and> f \<le> 10 \<and> f * 100 + 1 \<le> r \<and> r \<le> f * 100 + (if f = 10 then 7 else 10))"
  proof
    assume "r \<in> valid_rooms"
    then obtain f room where "r = f * 100 + room" "1 \<le> f" "f \<le> 10" "1 \<le> room"
      "room \<le> rooms_per_floor ! nat (f - 1)"
      by (auto simp: valid_rooms_def floors_def)
    then show "\<exists>f. 1 \<le> f \<and> f \<le> 10 \<and> f * 100 + 1 \<le> r \<and> r \<le> f * 100 + (if f = 10 then 7 else 10)"
      using rooms_per_floor_nth [of f] by (intro exI [of _ f]) (auto split: if_splits)
  next
    assume "\<exists>f. 1 \<le> f \<and> f \<le> 10 \<and> f * 100 + 1 \<le> r \<and> r \<le> f * 100 + (if f = 10 then 7 else 10)"
    then obtain f where f: "1 \<le> f" "f \<le> 10" "f * 100 + 1 \<le> r"
      "r \<le> f * 100 + (if f = 10 then 7 else 10)" by blast
    then have "r = f * 100 + (r - f * 100) \<and> 1 \<le> f \<and> f \<le> floors \<and> 1 \<le> r - f * 100
        \<and> r - f * 100 \<le> rooms_per_floor ! nat (f - 1)"
      using rooms_per_floor_nth [of f] by (auto simp: floors_def split: if_splits)
    then show "r \<in> valid_rooms" unfolding valid_rooms_def by blast
  qed
  also have "\<dots> \<longleftrightarrow> r \<in> (\<Union>f\<in>{1 .. 9}. {f * 100 + 1 .. f * 100 + 10}) \<union> {1001 .. 1007}"
  proof
    assume "\<exists>f. 1 \<le> f \<and> f \<le> 10 \<and> f * 100 + 1 \<le> r \<and> r \<le> f * 100 + (if f = 10 then 7 else 10)"
    then obtain f where f: "1 \<le> f" "f \<le> 10" "f * 100 + 1 \<le> r"
      "r \<le> f * 100 + (if f = 10 then 7 else 10)" by blast
    show "r \<in> (\<Union>f\<in>{1 .. 9}. {f * 100 + 1 .. f * 100 + 10}) \<union> {1001 .. 1007}"
    proof (cases "f = 10")
      case True
      with f show ?thesis by simp
    next
      case False
      with f have "f \<in> {1 .. 9}" "r \<in> {f * 100 + 1 .. f * 100 + 10}" by simp_all
      then show ?thesis by blast
    qed
  next
    assume "r \<in> (\<Union>f\<in>{1 .. 9}. {f * 100 + 1 .. f * 100 + 10}) \<union> {1001 .. 1007}"
    then consider f where "f \<in> {1 .. 9}" "r \<in> {f * 100 + 1 .. f * 100 + 10}"
      | "r \<in> {1001 .. 1007}" by blast
    then show "\<exists>f. 1 \<le> f \<and> f \<le> 10 \<and> f * 100 + 1 \<le> r \<and> r \<le> f * 100 + (if f = 10 then 7 else 10)"
    proof cases
      case 1
      then show ?thesis by (intro exI [of _ f]) auto
    next
      case 2
      then show ?thesis by (intro exI [of _ 10]) auto
    qed
  qed
  finally show "r \<in> valid_rooms \<longleftrightarrow>
      r \<in> (\<Union>f\<in>{1 .. 9}. {f * 100 + 1 .. f * 100 + 10}) \<union> {1001 .. 1007}" .
qed

text \<open>
  Claim C9. The keys of a fresh inventory are exactly the room numbers of the layout: ten
  rooms on each of the floors 1 to 9 and seven on floor 10. When the keys of a hotel are
  these, they still are after an automatic booking (which always returns), a booking of
  named rooms, a cancellation, a random occupancy and a reset.
\<close>

theorem key_set_invariant:
  "dom (available_rooms Hotel_init) = valid_rooms
   \<and> valid_rooms = (\<Union>f\<in>{1 .. 9}. {f * 100 + 1 .. f * 100 + 10}) \<union> {1001 .. 1007}
   \<and> (dom (available_rooms h) = valid_rooms \<longrightarrow>
        (\<exists>resp h'. book_rooms h n = Inr (resp, h') \<and> dom (available_rooms h') = valid_rooms)
        \<and> dom (available_rooms (snd (book_specific_rooms h rooms))) = valid_rooms
        \<and> dom (available_rooms (snd (cancel_booking h cancelled))) = valid_rooms
        \<and> dom (available_rooms (snd (generate_random_occupancy choice h))) = valid_rooms
        \<and> dom (available_rooms (snd (reset h))) = valid_rooms)"
proof (intro conjI impI)
  show "dom (available_rooms Hotel_init) = valid_rooms"
    by (simp add: Hotel_init_def dom_initialize_rooms)
  show "valid_rooms = (\<Union>f\<in>{1 .. 9}. {f * 100 + 1 .. f * 100 + 10}) \<union> {1001 .. 1007}"
    by (rule valid_rooms_explicit)
next
  assume inv: "dom (available_rooms h) = valid_rooms"
  from dom_book_rooms [of h n] inv
  show "\<exists>resp h'. book_rooms h n = Inr (resp, h') \<and> dom (available_rooms h') = valid_rooms"
    by simp
  from inv show "dom (available_rooms (snd (book_specific_rooms h rooms))) = valid_rooms"
    by (simp add: dom_book_specific_rooms)
  from inv show "dom (available_rooms (snd (cancel_booking h cancelled))) = valid_rooms"
    by (simp add: dom_cancel_booking)
  from inv show "dom (available_rooms (snd (generate_random_occupancy choice h))) = valid_rooms"
    by (simp add: dom_generate_random_occupancy)
  show "dom (available_rooms (snd (reset h))) = valid_rooms"
    by (simp add: reset_def dom_initialize_rooms)
qed

text \<open>The theorem at a fresh hotel.\<close>

theorem key_set_invariant_witness:
  "dom (available_rooms Hotel_init) = valid_rooms
   \<and> (\<exists>resp h'. book_rooms Hotel_init 3 = Inr (resp, h') \<and> dom (available_rooms h') = valid_rooms)
   \<and> dom (available_rooms (snd (book_specific_rooms Hotel_init [101, 205]))) = valid_rooms
   \<and> dom (available_rooms (snd (cancel_booking Hotel_init [101, 999]))) = valid_rooms
   \<and> dom (available_rooms (snd (generate_random_occupancy even Hotel_init))) = valid_rooms
   \<and> dom (available_rooms (snd (reset Hotel_init))) = valid_rooms"
proof -
  note t = key_set_invariant [of Hotel_init 3 "[101, 205]" "[101, 999]" even]
  from t have inv: "dom (available_rooms Hotel_init) = valid_rooms"
    by (rule conjunct1)
  from t have "dom (available_rooms Hotel_init) = valid_rooms \<longrightarrow>
        (\<exists>resp h'. book_rooms Hotel_init 3 = Inr (resp, h') \<and> dom (available_rooms h') = valid_rooms)
        \<and> dom (available_rooms (snd (book_specific_rooms Hotel_init [101, 205]))) = valid_rooms
        \<and> dom (available_rooms (snd (cancel_booking Hotel_init [101, 999]))) = valid_rooms
        \<and> dom (available_rooms (snd (generate_random_occupancy even Hotel_init))) = valid_rooms
        \<and> dom (available_rooms (snd (reset Hotel_init))) = valid_rooms"
    by (rule conjunct2 [THEN conjunct2])
  from this inv have "(\<exists>resp h'. book_rooms Hotel_init 3 = Inr (resp, h') \<and> dom (available_rooms h') = valid_rooms)
        \<and> dom (available_rooms (snd (book_specific_rooms Hotel_init [101, 205]))) = valid_rooms
        \<and> dom (available_rooms (snd (cancel_booking Hotel_init [101, 999]))) = valid_rooms
        \<and> dom (available_rooms (snd (generate_random_occupancy even Hotel_init))) = valid_rooms
        \<and> dom (available_rooms (snd (reset Hotel_init))) = valid_rooms"
    by (rule mp)
  with inv show ?thesis by (rule conjI)
qed

section \<open>The theorems on concrete hotels\<close>

lemma fresh_single_3:
  "find_best_rooms_single_floor Hotel_init 3 = Inr ([101, 102, 103], Finite 2)"
  by code_simp

lemma fresh_book_3:
  "book_rooms Hotel_init 3 =
     Inr (Booked [101, 102, 103] (Finite 2) SINGLE_FLOOR,
          set_rooms False [101, 102, 103] Hotel_init)"
  by (simp add: book_rooms_def fresh_single_3)

lemma spread_floor_1:
  "get_available_rooms_on_floor (hotel_with_free [101, 110, 210]) 1 = Inr [101, 110]"
  by code_simp

lemma spread_single_2:
  "find_best_rooms_single_floor (hotel_with_free [101, 110, 210]) 2 = Inr ([101, 110], Finite 9)"
  by code_simp

lemma spread_multi_2:
  "find_best_rooms_multi_floor (hotel_with_free [101, 110, 210]) 2 = Inr ([110, 210], Finite 2)"
  by code_simp

lemma pairs_windows:
  "single_floor_windows (hotel_with_free [101, 102, 201, 202]) 2 = [[101, 102], [201, 202]]"
  by code_simp

lemma split_single_2:
  "find_best_rooms_single_floor (hotel_with_free [110, 210]) 2 = Inr ([], Infinity)"
  by code_simp

lemma split_multi_2:
  "find_best_rooms_multi_floor (hotel_with_free [110, 210]) 2 = Inr ([110, 210], Finite 2)"
  by code_simp

lemma split_book_2:
  "book_rooms (hotel_with_free [110, 210]) 2 =
     Inr (Booked [110, 210] (Finite 2) MULTI_FLOOR,
          set_rooms False [110, 210] (hotel_with_free [110, 210]))"
  by (simp add: book_rooms_def split_single_2 split_multi_2)

text \<open>
  The theorem where the other search would be cheaper: with only 101, 110 and 210 free,
  two rooms are booked on floor 1 at cost 9, though the window 110, 210 of the
  multi-floor search costs 2.
\<close>

theorem book_rooms_prefers_single_floor_witness:
  "get_available_rooms_on_floor (hotel_with_free [101, 110, 210]) 1 = Inr [101, 110]
   \<and> book_rooms (hotel_with_free [101, 110, 210]) 2 =
       Inr (Booked [101, 110] (Finite 9) SINGLE_FLOOR,
            set_rooms False [101, 110] (hotel_with_free [101, 110, 210]))
   \<and> find_best_rooms_multi_floor (hotel_with_free [101, 110, 210]) 2 =
       Inr ([110, 210], Finite 2)"
proof -
  have "(2::int) \<le> int (length [101, 110 :: int])" by simp
  from book_rooms_prefers_single_floor [of 2 1 "hotel_with_free [101, 110, 210]" "[101, 110]", OF _ _ _ _ spread_floor_1 this]
  obtain rooms t where
    "find_best_rooms_single_floor (hotel_with_free [101, 110, 210]) 2 = Inr (rooms, t)"
    "book_rooms (hotel_with_free [101, 110, 210]) 2 =
       Inr (Booked rooms t SINGLE_FLOOR, set_rooms False rooms (hotel_with_free [101, 110, 210]))"
    by (auto simp: floors_def)
  then have "book_rooms (hotel_with_free [101, 110, 210]) 2 =
       Inr (Booked [101, 110] (Finite 9) SINGLE_FLOOR,
            set_rooms False [101, 110] (hotel_with_free [101, 110, 210]))"
    by (simp add: spread_single_2)
  with spread_floor_1 spread_multi_2 show ?thesis by simp
qed

text \<open>
  The theorem at a tie: with 101, 102, 201 and 202 free both windows cost 1 and the one
  of floor 1 is returned; with 110 and 210 free no floor has two free rooms.
\<close>

theorem find_best_rooms_single_floor_first_minimum_witness:
  "single_floor_windows (hotel_with_free [101, 102, 201, 202]) 2 = [[101, 102], [201, 202]]
   \<and> cost [101, 102] = 1 \<and> cost [201, 202] = 1
   \<and> find_best_rooms_single_floor (hotel_with_free [101, 102, 201, 202]) 2 =
       Inr ([101, 102], Finite 1)
   \<and> find_best_rooms_single_floor (hotel_with_free [110, 210]) 2 = Inr ([], Infinity)"
proof -
  let ?h = "hotel_with_free [101, 102, 201, 202]"
  have c: "cost [101, 102] = 1" "cost [201, 202] = 1"
    by (simp_all add: cost_def travel_time_def divmod_def)
  have one: "(1::int) \<le> 2" by simp
  from find_best_rooms_single_floor_first_minimum [OF one, of ?h] obtain k where
    k: "first_minimum (single_floor_windows ?h 2) k"
       "find_best_rooms_single_floor ?h 2 =
          Inr (single_floor_windows ?h 2 ! k, Finite (cost (single_floor_windows ?h 2 ! k)))"
    by (auto simp: pairs_windows)
  from k(1) have fm: "first_minimum [[101, 102], [201, 202]] k"
    by (simp only: pairs_windows)
  have "k = 0"
  proof (rule ccontr)
    assume "k \<noteq> 0"
    moreover from fm have "k < length [[101, 102], [201, 202 :: int]]"
      unfolding first_minimum_def by (rule conjunct1)
    ultimately have k1: "k = 1" by simp
    from fm have "\<forall>j<k. cost ([[101, 102], [201, 202]] ! k) < cost ([[101, 102], [201, 202]] ! j)"
      unfolding first_minimum_def by (rule conjunct2 [THEN conjunct2])
    then have "cost ([[101, 102], [201, 202]] ! 1) < cost ([[101, 102], [201, 202]] ! 0)"
      unfolding k1 by blast
    then show False by (simp add: c)
  qed
  with k(2) have a: "find_best_rooms_single_floor ?h 2 = Inr ([101, 102], Finite 1)"
    by (simp add: pairs_windows c)
  have "single_floor_windows (hotel_with_free [110, 210]) (nat 2) = []"
    by code_simp
  with find_best_rooms_single_floor_first_minimum [OF one, of "hotel_with_free [110, 210]"]
  have "find_best_rooms_single_floor (hotel_with_free [110, 210]) 2 = Inr ([], Infinity)"
    by simp
  with a c pairs_windows show ?thesis by simp
qed

text \<open>The theorem at a fresh hotel and three rooms: 101 to 103 are booked, 104 is not touched.\<close>

theorem book_rooms_frame_witness:
  "book_rooms Hotel_init 3 =
     Inr (Booked [101, 102, 103] (Finite 2) SINGLE_FLOOR,
          set_rooms False [101, 102, 103] Hotel_init)
   \<and> available_rooms Hotel_init 102 = Some True
   \<and> available_rooms (set_rooms False [101, 102, 103] Hotel_init) 102 = Some False
   \<and> available_rooms (set_rooms False [101, 102, 103] Hotel_init) 104 =
       available_rooms Hotel_init 104"
  using book_rooms_frame [OF fresh_book_3] fresh_book_3 by simp

text \<open>
  The theorem after a multi-floor booking (only 110 and 210 free) and after a single-floor
  booking on a fresh hotel.
\<close>

theorem cancel_after_book_rooms_restores_witness:
  "book_rooms (hotel_with_free [110, 210]) 2 =
     Inr (Booked [110, 210] (Finite 2) MULTI_FLOOR,
          set_rooms False [110, 210] (hotel_with_free [110, 210]))
   \<and> cancel_booking (set_rooms False [110, 210] (hotel_with_free [110, 210])) [110, 210] =
       (Success (CanceledBooking [110, 210]), hotel_with_free [110, 210])
   \<and> cancel_booking (set_rooms False [101, 102, 103] Hotel_init) [101, 102, 103] =
       (Success (CanceledBooking [101, 102, 103]), Hotel_init)"
  using cancel_after_book_rooms_restores [OF split_book_2] cancel_after_book_rooms_restores [OF fresh_book_3] split_book_2 by simp

end
